theory Spec2Isabelle
  imports Complex_Main "HOL-Library.Word"
begin

section \<open>Strings and paths\<close>

text \<open>
  Python \<^verbatim>\<open>str\<close> values (URLs, hrefs, local paths) are modelled as \<^typ>\<open>string\<close>.
  The helpers below are the library calls the script makes on them, written out.
\<close>

text \<open>\<^verbatim>\<open>s.partition(sep)\<close> at the first occurrence of a non-empty \<open>sep\<close>:
  \<open>Some (before, after)\<close>, or \<open>None\<close> when \<open>sep\<close> does not occur.\<close>

fun partition_at :: "string \<Rightarrow> string \<Rightarrow> (string \<times> string) option" where
  "partition_at sep [] = None"
| "partition_at sep (c # cs) =
     (if take (length sep) (c # cs) = sep then Some ([], drop (length sep) (c # cs))
      else map_option (\<lambda>(a, b). (c # a, b)) (partition_at sep cs))"

text \<open>\<^verbatim>\<open>s.split(sep, 1)\<close>: one part when \<open>sep\<close> does not occur, two parts otherwise.\<close>

definition split1 :: "string \<Rightarrow> string \<Rightarrow> string list" where
  "split1 sep s = (case partition_at sep s of None \<Rightarrow> [s] | Some (a, b) \<Rightarrow> [a, b])"

text \<open>\<^verbatim>\<open>s.lstrip("/")\<close>.\<close>

definition lstrip_slash :: "string \<Rightarrow> string" where
  "lstrip_slash s = dropWhile (\<lambda>c. c = CHR ''/'') s"

text \<open>\<^verbatim>\<open>os.path.basename\<close> (posixpath): what follows the last slash.\<close>

definition basename :: "string \<Rightarrow> string" where
  "basename p = rev (takeWhile (\<lambda>c. c \<noteq> CHR ''/'') (rev p))"

text \<open>\<^verbatim>\<open>os.path.dirname\<close> (posixpath): the head up to the last slash, with its
  trailing slashes removed unless the head consists of slashes only.\<close>

definition dirname :: "string \<Rightarrow> string" where
  "dirname p =
     (let hd_part = rev (dropWhile (\<lambda>c. c \<noteq> CHR ''/'') (rev p))
      in if hd_part \<noteq> [] \<and> \<not> list_all (\<lambda>c. c = CHR ''/'') hd_part
         then rev (dropWhile (\<lambda>c. c = CHR ''/'') (rev hd_part))
         else hd_part)"

text \<open>\<^verbatim>\<open>os.path.join(a, b)\<close> (posixpath, two arguments).\<close>

definition path_join :: "string \<Rightarrow> string \<Rightarrow> string" where
  "path_join a b =
     (if b \<noteq> [] \<and> hd b = CHR ''/'' then b
      else if a = [] \<or> last a = CHR ''/'' then a @ b
      else a @ ''/'' @ b)"

text \<open>\<^verbatim>\<open>s.endswith(suffix)\<close> and \<^verbatim>\<open>s.lower()\<close> (ASCII letters).\<close>

definition endswith :: "string \<Rightarrow> string \<Rightarrow> bool" where
  "endswith s suf = (length suf \<le> length s \<and> drop (length s - length suf) s = suf)"

definition lower_char :: "char \<Rightarrow> char" where
  "lower_char c =
     (let n = of_char c :: nat in if 65 \<le> n \<and> n \<le> 90 then char_of (n + 32) else c)"

definition lower :: "string \<Rightarrow> string" where
  "lower s = map lower_char s"

text \<open>\<^verbatim>\<open>s[:-k]\<close> for a positive literal \<open>k\<close>: all but the last \<open>k\<close> characters
  (empty when the string is shorter).\<close>

definition drop_last :: "nat \<Rightarrow> string \<Rightarrow> string" where
  "drop_last k s = take (length s - k) s"

section \<open>Remote-to-local path mapping\<close>

definition split_key :: string where
  "split_key = ''mimic-cxr/2.1.0/''"

text \<open>\<^verbatim>\<open>relative_local_path(full_url)\<close>.\<close>

definition relative_local_path :: "string \<Rightarrow> string" where
  "relative_local_path full_url =
     (let parts = split1 split_key full_url
      in if length parts < 2 then basename full_url
         else lstrip_slash (parts ! 1))"

text \<open>The two local paths the crawl derives for a discovered \<^verbatim>\<open>.dcm\<close> link.\<close>

definition dcm_local_path :: "string \<Rightarrow> string \<Rightarrow> string" where
  "dcm_local_path save_dir full_url = path_join save_dir (relative_local_path full_url)"

definition jpg_local_path :: "string \<Rightarrow> string \<Rightarrow> string" where
  "jpg_local_path save_dir full_url = drop_last 4 (dcm_local_path save_dir full_url) @ ''.jpg''"

section \<open>The environment: file system, server, codecs\<close>

text \<open>
  Everything outside the script is made explicit. File contents and response bodies are
  byte strings. The local file system is a record of the regular files (path to content)
  and of the directories that exist; the script's file-system calls are functions on it.
\<close>

type_synonym bytes = "8 word list"

record filesystem =
  files :: "string \<rightharpoonup> bytes"
  dirs :: "string set"

text \<open>The exceptions the script can meet, by their Python class.\<close>

datatype error =
    HTTPError int
  | ConnectionError
  | OSError
  | ValueError
  | NameError
  | ZeroDivisionError
  | BadZipFile
  | BadGzipFile

text \<open>
  A response as the script reads it: the status code, the \<^verbatim>\<open>href\<close> of every anchor that
  \<^verbatim>\<open>BeautifulSoup(r.text, 'html.parser').find_all('a')\<close> yields (the empty string for an
  anchor without one), the chunks that \<^verbatim>\<open>iter_content\<close> yields, and whether the body
  can be read to its end (otherwise reading raises after the last chunk).
\<close>

record response =
  status_code :: int
  hrefs :: "string list"
  chunks :: "bytes list"
  intact :: bool

text \<open>
  The world the script runs against. \<open>site\<close> is the remote server, a finite table from
  URL to response; a URL that is not in the table cannot be reached. \<open>urljoin\<close> is
  \<^verbatim>\<open>urllib.parse.urljoin\<close>. \<open>dcm_pixels\<close> is \<^verbatim>\<open>pydicom.dcmread(...).pixel_array\<close> on the
  content of a file (\<open>None\<close> when it raises), with the integer samples of the image in
  row order. \<open>rnd\<close> rounds an exact value to \<^verbatim>\<open>float32\<close>. \<open>imencode\<close> is
  \<^verbatim>\<open>cv2.imencode('.jpg', arr, [IMWRITE_JPEG_QUALITY, q])\<close> (\<open>None\<close> when \<^verbatim>\<open>ok\<close> is false).
  \<open>zip_members\<close> reads a ZIP archive: \<open>None\<close> when \<^verbatim>\<open>ZipFile(...)\<close> raises, otherwise
  the members in order, each with its relative target name, the bytes that extracting it
  writes, and whether extracting it completes. \<open>gunzip\<close> gives the bytes that
  decompression produces and whether it reaches the end of the stream without an error.
  \<open>undeletable\<close> are the paths on which \<^verbatim>\<open>os.remove\<close> is refused.
\<close>

record env =
  site :: "(string \<times> response) list"
  urljoin :: "string \<Rightarrow> string \<Rightarrow> string"
  dcm_pixels :: "bytes \<Rightarrow> int list option"
  rnd :: "real \<Rightarrow> real"
  imencode :: "8 word list \<Rightarrow> int \<Rightarrow> bytes option"
  zip_members :: "bytes \<Rightarrow> (string \<times> bytes \<times> bool) list option"
  gunzip :: "bytes \<Rightarrow> bytes \<times> bool"
  undeletable :: "string set"

subsection \<open>File-system calls\<close>

text \<open>\<^verbatim>\<open>os.path.isfile\<close>.\<close>

definition isfile :: "filesystem \<Rightarrow> string \<Rightarrow> bool" where
  "isfile fs p = (files fs p \<noteq> None)"

text \<open>The directories \<^verbatim>\<open>os.makedirs(p, exist_ok=True)\<close> makes sure exist: \<open>p\<close> and each
  of its ancestors.\<close>

definition path_prefixes :: "string \<Rightarrow> string list" where
  "path_prefixes p =
     filter (\<lambda>q. q \<noteq> []) (map (\<lambda>i. take i p) (filter (\<lambda>i. p ! i = CHR ''/'') [0..<length p]))
     @ [p]"

text \<open>\<^verbatim>\<open>os.makedirs(p, exist_ok=True)\<close>; the empty path raises \<^verbatim>\<open>FileNotFoundError\<close>.\<close>

definition makedirs :: "string \<Rightarrow> filesystem \<Rightarrow> error + filesystem" where
  "makedirs p fs =
     (if p = [] then Inl OSError
      else Inr (fs\<lparr>dirs := dirs fs \<union> set (path_prefixes p)\<rparr>))"

text \<open>\<^verbatim>\<open>open(p, 'wb')\<close>: the file is created or truncated. The empty path and a path
  that names a directory by a trailing slash cannot be opened.\<close>

definition open_wb :: "string \<Rightarrow> filesystem \<Rightarrow> error + filesystem" where
  "open_wb p fs =
     (if p = [] \<or> last p = CHR ''/'' then Inl OSError
      else Inr (fs\<lparr>files := (files fs)(p \<mapsto> [])\<rparr>))"

text \<open>Writing \<open>data\<close> to the file opened at \<open>p\<close>: the bytes are appended.\<close>

definition append_file :: "string \<Rightarrow> bytes \<Rightarrow> filesystem \<Rightarrow> filesystem" where
  "append_file p data fs =
     fs\<lparr>files := (files fs)(p \<mapsto> (case files fs p of None \<Rightarrow> [] | Some old \<Rightarrow> old) @ data)\<rparr>"

text \<open>\<^verbatim>\<open>os.remove(p)\<close>: raises when there is no such file or the removal is refused.\<close>

definition os_remove :: "env \<Rightarrow> string \<Rightarrow> filesystem \<Rightarrow> error + filesystem" where
  "os_remove ev p fs =
     (if files fs p = None \<or> p \<in> undeletable ev then Inl OSError
      else Inr (fs\<lparr>files := (files fs)(p := None)\<rparr>))"

subsection \<open>HTTP\<close>

text \<open>\<^verbatim>\<open>session.get(url)\<close>.\<close>

definition http_get :: "env \<Rightarrow> string \<Rightarrow> error + response" where
  "http_get ev url = (case map_of (site ev) url of None \<Rightarrow> Inl ConnectionError | Some r \<Rightarrow> Inr r)"

text \<open>\<^verbatim>\<open>r.raise_for_status()\<close> raises for the client and server error codes.\<close>

definition raise_for_status :: "response \<Rightarrow> error + unit" where
  "raise_for_status r =
     (if 400 \<le> status_code r \<and> status_code r < 600 then Inl (HTTPError (status_code r))
      else Inr ())"

text \<open>\<^verbatim>\<open>get_soup(url, s)\<close>: the anchors of the page, which the crawl reads through
  \<^verbatim>\<open>find_all('a')\<close> and \<^verbatim>\<open>link.get('href', '')\<close>. The request is not streamed, so a body
  that cannot be read to its end makes \<^verbatim>\<open>s.get\<close> itself raise.\<close>

definition get_soup :: "env \<Rightarrow> string \<Rightarrow> error + string list" where
  "get_soup ev url =
     (case http_get ev url of
        Inl e \<Rightarrow> Inl e
      | Inr r \<Rightarrow>
          if \<not> intact r then Inl ConnectionError
          else (case raise_for_status r of Inl e \<Rightarrow> Inl e | Inr _ \<Rightarrow> Inr (hrefs r)))"

section \<open>Downloading one file\<close>

text \<open>The loop over \<^verbatim>\<open>r.iter_content(chunk_size=8192)\<close>: an empty chunk is skipped, any
  other is written to the open file and counted.\<close>

fun write_chunks :: "string \<Rightarrow> bytes list \<Rightarrow> nat \<times> filesystem \<Rightarrow> nat \<times> filesystem" where
  "write_chunks p [] (sz, fs) = (sz, fs)"
| "write_chunks p (chunk # rest) (sz, fs) =
     (if chunk \<noteq> [] then write_chunks p rest (sz + length chunk, append_file p chunk fs)
      else write_chunks p rest (sz, fs))"

text \<open>\<^verbatim>\<open>download_file(file_url, local_path, session)\<close>. The result is the returned pair
  or the exception raised, together with the file system left behind.\<close>

definition download_file ::
  "env \<Rightarrow> string \<Rightarrow> string \<Rightarrow> filesystem \<Rightarrow> (error + string \<times> nat) \<times> filesystem" where
  "download_file ev file_url local_path fs =
     (case makedirs (dirname local_path) fs of
        Inl e \<Rightarrow> (Inl e, fs)
      | Inr fs1 \<Rightarrow>
          (case http_get ev file_url of
             Inl e \<Rightarrow> (Inl e, fs1)
           | Inr r \<Rightarrow>
               (case raise_for_status r of
                  Inl e \<Rightarrow> (Inl e, fs1)
                | Inr _ \<Rightarrow>
                    (case open_wb local_path fs1 of
                       Inl e \<Rightarrow> (Inl e, fs1)
                     | Inr fs2 \<Rightarrow>
                         (let (sz, fs3) = write_chunks local_path (chunks r) (0, fs2)
                          in if intact r then (Inr (local_path, sz), fs3)
                             else (Inl ConnectionError, fs3))))))"

section \<open>Transcoding a DICOM file to JPEG\<close>

subsection \<open>Normalising the pixel buffer\<close>

text \<open>
  The samples are converted to \<^verbatim>\<open>float32\<close>, so every arithmetic result below is
  rounded by \<open>rnd\<close>. A division by zero does not raise in numpy; it would leave a
  non-finite sample behind. The model marks that outcome as the error
  \<open>ZeroDivisionError\<close>, so that its absence can be stated.
\<close>

definition float_div :: "(real \<Rightarrow> real) \<Rightarrow> real \<Rightarrow> real \<Rightarrow> error + real" where
  "float_div r x y = (if y = 0 then Inl ZeroDivisionError else Inr (r (x / y)))"

text \<open>\<^verbatim>\<open>.astype(np.uint8)\<close> on one sample: the fraction is cut off (towards zero) and the
  integer is stored in eight bits.\<close>

definition to_uint8 :: "real \<Rightarrow> 8 word" where
  "to_uint8 y = word_of_int (if y < 0 then - \<lfloor>- y\<rfloor> else \<lfloor>y\<rfloor>)"

text \<open>One sample of \<^verbatim>\<open>(arr - min_val)/(max_val - min_val)*255.0\<close>, then the cast.\<close>

definition rescale :: "(real \<Rightarrow> real) \<Rightarrow> real \<Rightarrow> real \<Rightarrow> real \<Rightarrow> error + 8 word" where
  "rescale r min_val max_val x =
     (case float_div r (r (x - min_val)) (r (max_val - min_val)) of
        Inl e \<Rightarrow> Inl e
      | Inr q \<Rightarrow> Inr (to_uint8 (r (q * 255))))"

fun rescale_all :: "(real \<Rightarrow> real) \<Rightarrow> real \<Rightarrow> real \<Rightarrow> real list \<Rightarrow> error + 8 word list" where
  "rescale_all r min_val max_val [] = Inr []"
| "rescale_all r min_val max_val (x # xs) =
     (case rescale r min_val max_val x of
        Inl e \<Rightarrow> Inl e
      | Inr y \<Rightarrow>
          (case rescale_all r min_val max_val xs of
             Inl e \<Rightarrow> Inl e
           | Inr ys \<Rightarrow> Inr (y # ys)))"

text \<open>Lines 148 to 154 of \<^verbatim>\<open>dicom_to_jpg\<close>. \<^verbatim>\<open>arr.min()\<close> raises \<^verbatim>\<open>ValueError\<close> on an
  empty array.\<close>

definition normalize_pixels :: "(real \<Rightarrow> real) \<Rightarrow> int list \<Rightarrow> error + 8 word list" where
  "normalize_pixels r arr =
     (let xs = map (\<lambda>v. r (of_int v)) arr
      in if xs = [] then Inl ValueError
         else
           (let min_val = Min (set xs); max_val = Max (set xs)
            in if r (max_val - min_val) < 1 / 1000000 then Inr (map (\<lambda>x. 0) xs)
               else rescale_all r min_val max_val xs))"

subsection \<open>Searching the JPEG quality\<close>

text \<open>
  How the \<^verbatim>\<open>while quality >= 10\<close> loop ends: either the function returns from inside
  it because an encoding failed, or the loop is left (through \<^verbatim>\<open>break\<close> or because the
  quality fell below 10) with the variables \<^verbatim>\<open>encoded\<close> and \<^verbatim>\<open>encimg\<close> as given;
  \<open>None\<close> for \<^verbatim>\<open>encimg\<close> stands for a variable that was never assigned.
\<close>

datatype search_end = EncodeFailed | LoopDone "bytes option" "bytes option"

function quality_loop ::
  "(8 word list \<Rightarrow> int \<Rightarrow> bytes option) \<Rightarrow> 8 word list \<Rightarrow> int \<Rightarrow> int \<Rightarrow> bytes option
   \<Rightarrow> search_end" where
  "quality_loop enc arr target_sz quality encimg =
     (if quality \<ge> 10 then
        (case enc arr quality of
           None \<Rightarrow> EncodeFailed
         | Some e \<Rightarrow>
             if int (length e) \<le> target_sz then LoopDone (Some e) (Some e)
             else quality_loop enc arr target_sz (quality - 10) (Some e))
      else LoopDone None encimg)"
  by pat_completeness auto
termination
  by (relation "measure (\<lambda>(enc, arr, target_sz, quality, encimg). nat (quality - 9))") auto

declare quality_loop.simps [simp del]

subsection \<open>The whole job\<close>

text \<open>What \<^verbatim>\<open>dicom_to_jpg\<close> reports when it returns (it returns \<^verbatim>\<open>None\<close> in every case;
  the cases differ by the line printed): the file could not be read, an encoding failed,
  or the JPEG of the given size was written.\<close>

datatype conversion = CouldNotRead | JpegEncodeFailed | Converted nat

text \<open>\<^verbatim>\<open>pydicom.dcmread(dcm_path)\<close> and \<^verbatim>\<open>ds.pixel_array\<close>, inside the first \<^verbatim>\<open>try\<close>.\<close>

definition dcmread :: "env \<Rightarrow> filesystem \<Rightarrow> string \<Rightarrow> int list option" where
  "dcmread ev fs dcm_path =
     (case files fs dcm_path of None \<Rightarrow> None | Some content \<Rightarrow> dcm_pixels ev content)"

text \<open>\<^verbatim>\<open>dicom_to_jpg(dcm_path, jpg_path, target_sz)\<close>. \<open>Inl\<close> is an exception that leaves
  the function; the removal of the source sits in its own \<^verbatim>\<open>try\<close> with a bare
  \<^verbatim>\<open>except: pass\<close>, so its failure changes nothing.\<close>

definition dicom_to_jpg ::
  "env \<Rightarrow> string \<Rightarrow> string \<Rightarrow> int \<Rightarrow> filesystem \<Rightarrow> (error + conversion) \<times> filesystem" where
  "dicom_to_jpg ev dcm_path jpg_path target_sz fs =
     (case dcmread ev fs dcm_path of
        None \<Rightarrow> (Inr CouldNotRead, fs)
      | Some arr \<Rightarrow>
          (case normalize_pixels (rnd ev) arr of
             Inl e \<Rightarrow> (Inl e, fs)
           | Inr arr8 \<Rightarrow>
               (case quality_loop (imencode ev) arr8 target_sz 90 None of
                  EncodeFailed \<Rightarrow> (Inr JpegEncodeFailed, fs)
                | LoopDone encoded encimg \<Rightarrow>
                    (case (if encoded = None then encimg else encoded) of
                       None \<Rightarrow> (Inl NameError, fs)
                     | Some encoded' \<Rightarrow>
                         (case makedirs (dirname jpg_path) fs of
                            Inl e \<Rightarrow> (Inl e, fs)
                          | Inr fs1 \<Rightarrow>
                              (case open_wb jpg_path fs1 of
                                 Inl e \<Rightarrow> (Inl e, fs1)
                               | Inr fs2 \<Rightarrow>
                                   (let fs3 = append_file jpg_path encoded' fs2;
                                        fs4 = (case os_remove ev dcm_path fs3 of
                                                 Inl e \<Rightarrow> fs3
                                               | Inr fs' \<Rightarrow> fs')
                                    in (Inr (Converted (length encoded')), fs4))))))))"

section \<open>Extracting an archive\<close>

text \<open>What \<^verbatim>\<open>extract_if_archive\<close> does, by the line it prints: nothing (no such file, or
  a name that is neither \<^verbatim>\<open>.zip\<close> nor \<^verbatim>\<open>.gz\<close>), the archive was extracted and
  removed, or an exception was caught and reported.\<close>

datatype extraction = NotAFile | NotAnArchive | Removed | ErrorExtracting error

text \<open>\<^verbatim>\<open>zf.extractall(folder)\<close>: the members are written one after the other below
  \<open>folder\<close>, each after its parent directories have been made; the first member that
  cannot be extracted ends the call with an exception, and what was written stays.\<close>

fun extractall :: "string \<Rightarrow> (string \<times> bytes \<times> bool) list \<Rightarrow> filesystem \<Rightarrow> error option \<times> filesystem" where
  "extractall folder [] fs = (None, fs)"
| "extractall folder ((name, data, ok) # rest) fs =
     (let target = path_join folder name;
          fs1 = (case makedirs (dirname target) fs of Inl e \<Rightarrow> fs | Inr fs' \<Rightarrow> fs')
      in case open_wb target fs1 of
           Inl e \<Rightarrow> (Some e, fs1)
         | Inr fs2 \<Rightarrow>
             (let fs3 = append_file target data fs2
              in if ok then extractall folder rest fs3 else (Some BadZipFile, fs3)))"

text \<open>\<^verbatim>\<open>extract_if_archive(filepath)\<close>. Both \<^verbatim>\<open>try\<close> blocks catch every exception, so
  the function always returns.\<close>

definition extract_if_archive :: "env \<Rightarrow> string \<Rightarrow> filesystem \<Rightarrow> extraction \<times> filesystem" where
  "extract_if_archive ev filepath fs =
     (if \<not> isfile fs filepath then (NotAFile, fs)
      else if endswith (lower filepath) ''.zip'' then
        (let folder = dirname filepath
         in case zip_members ev (the (files fs filepath)) of
              None \<Rightarrow> (ErrorExtracting BadZipFile, fs)
            | Some members \<Rightarrow>
                (case extractall folder members fs of
                   (Some e, fs1) \<Rightarrow> (ErrorExtracting e, fs1)
                 | (None, fs1) \<Rightarrow>
                     (case os_remove ev filepath fs1 of
                        Inl e \<Rightarrow> (ErrorExtracting e, fs1)
                      | Inr fs2 \<Rightarrow> (Removed, fs2))))
      else if endswith (lower filepath) ''.gz'' then
        (let outpath = drop_last 3 filepath
         in case open_wb outpath fs of
              Inl e \<Rightarrow> (ErrorExtracting e, fs)
            | Inr fs1 \<Rightarrow>
                (let (data, ok) = gunzip ev (the (files fs filepath));
                     fs2 = append_file outpath data fs1
                 in if \<not> ok then (ErrorExtracting BadGzipFile, fs2)
                    else
                      (case os_remove ev filepath fs2 of
                         Inl e \<Rightarrow> (ErrorExtracting e, fs2)
                       | Inr fs3 \<Rightarrow> (Removed, fs3))))
      else (NotAnArchive, fs))"

section \<open>The crawl\<close>

text \<open>\<^verbatim>\<open>download_and_convert(file_url, dcm_path, jpg_path, session)\<close>: both steps sit in a
  \<^verbatim>\<open>try\<close> that turns an exception into \<^verbatim>\<open>False\<close>; otherwise the result is \<^verbatim>\<open>True\<close>,
  whatever \<^verbatim>\<open>dicom_to_jpg\<close> reported.\<close>

definition download_and_convert ::
  "env \<Rightarrow> string \<Rightarrow> string \<Rightarrow> string \<Rightarrow> filesystem \<Rightarrow> bool \<times> filesystem" where
  "download_and_convert ev file_url dcm_path jpg_path fs =
     (case download_file ev file_url dcm_path fs of
        (Inl e, fs1) \<Rightarrow> (False, fs1)
      | (Inr downloaded, fs1) \<Rightarrow>
          (case dicom_to_jpg ev dcm_path jpg_path 1000000 fs1 of
             (Inl ex, fs2) \<Rightarrow> (False, fs2)
           | (Inr report, fs2) \<Rightarrow> (True, fs2)))"

text \<open>
  The loop over the anchors of one listing (lines 260 to 276). It appends the
  subdirectories to \<^verbatim>\<open>links_to_visit\<close> and submits one unit of work per \<^verbatim>\<open>.dcm\<close> link; a
  unit is recorded as the arguments of its \<^verbatim>\<open>download_and_convert\<close> call.
\<close>

type_synonym task = "string \<times> string \<times> string"

fun scan_links ::
  "env \<Rightarrow> string \<Rightarrow> string \<Rightarrow> string list \<Rightarrow> string list \<times> task list
   \<Rightarrow> string list \<times> task list" where
  "scan_links ev current_url save_dir [] (to_visit, tasks) = (to_visit, tasks)"
| "scan_links ev current_url save_dir (href # rest) (to_visit, tasks) =
     (if href = [] \<or> href = ''../'' then
        scan_links ev current_url save_dir rest (to_visit, tasks)
      else
        (let full_url = urljoin ev current_url href
         in if endswith href ''/'' then
              scan_links ev current_url save_dir rest (to_visit @ [full_url], tasks)
            else if endswith (lower href) ''.dcm'' then
              (let rel_path = relative_local_path full_url;
                   dcm_path = path_join save_dir rel_path;
                   jpg_path = drop_last 4 dcm_path @ ''.jpg''
               in scan_links ev current_url save_dir rest
                    (to_visit, tasks @ [(full_url, dcm_path, jpg_path)]))
            else scan_links ev current_url save_dir rest (to_visit, tasks)))"

text \<open>
  The submitted units of one directory. Every submitted unit runs to its end, because
  leaving the \<^verbatim>\<open>with ThreadPoolExecutor\<close> block waits for all of them; the model runs
  them one after the other in the order of submission and keeps each result.
\<close>

fun run_tasks :: "env \<Rightarrow> task list \<Rightarrow> filesystem \<Rightarrow> bool list \<times> filesystem" where
  "run_tasks ev [] fs = ([], fs)"
| "run_tasks ev ((file_url, dcm_path, jpg_path) # rest) fs =
     (let (success, fs1) = download_and_convert ev file_url dcm_path jpg_path fs;
          (results, fs2) = run_tasks ev rest fs1
      in (success # results, fs2))"

text \<open>
  The loop over \<^verbatim>\<open>as_completed(tasks)\<close> (lines 278 to 289), on the results in the order
  in which they complete. It carries \<^verbatim>\<open>dcm_count\<close> and the numbers printed by
  \<^verbatim>\<open>"Processed {dcm_count} DICOMs so far."\<close>.
\<close>

fun await_results :: "int \<Rightarrow> bool list \<Rightarrow> int \<times> int list \<Rightarrow> int \<times> int list" where
  "await_results max_files [] (dcm_count, out) = (dcm_count, out)"
| "await_results max_files (success # rest) (dcm_count, out) =
     (if dcm_count \<ge> max_files then (dcm_count, out)
      else
        (let (dcm_count', out') =
               (if success then (dcm_count + 1, out @ [dcm_count + 1]) else (dcm_count, out))
         in if dcm_count' \<ge> max_files then (dcm_count', out')
            else await_results max_files rest (dcm_count', out')))"

text \<open>
  The variables of \<^verbatim>\<open>crawl_and_convert_dicom\<close>, with what the run leaves outside them:
  the file system, the listing requests sent (in order), and the counts printed.
\<close>

record crawl_state =
  dcm_count :: int
  links_to_visit :: "string list"
  visited :: "string set"
  disk :: filesystem
  requested :: "string list"
  printed :: "int list"

text \<open>The function returns, or an exception leaves it.\<close>

datatype crawl_end = Returned crawl_state | Raised error crawl_state

text \<open>
  The \<^verbatim>\<open>while links_to_visit and dcm_count < max_files\<close> loop. \<^verbatim>\<open>links_to_visit.pop()\<close>
  takes the last element. \<^verbatim>\<open>get_soup\<close> is called outside any \<^verbatim>\<open>try\<close>, so its exception
  leaves the function.
\<close>

function crawl_loop :: "env \<Rightarrow> string \<Rightarrow> int \<Rightarrow> crawl_state \<Rightarrow> crawl_end" where
  "crawl_loop ev save_dir max_files s =
     (if links_to_visit s \<noteq> [] \<and> dcm_count s < max_files then
        (let current_url = last (links_to_visit s);
             popped = butlast (links_to_visit s)
         in if current_url \<in> visited s then
              crawl_loop ev save_dir max_files (s\<lparr>links_to_visit := popped\<rparr>)
            else
              (case get_soup ev current_url of
                 Inl e \<Rightarrow>
                   Raised e (s\<lparr>links_to_visit := popped,
                               visited := insert current_url (visited s),
                               requested := requested s @ [current_url]\<rparr>)
               | Inr soup \<Rightarrow>
                   (let (to_visit, tasks) = scan_links ev current_url save_dir soup (popped, []);
                        (results, fs) = run_tasks ev tasks (disk s);
                        (n, out) = await_results max_files results (dcm_count s, printed s);
                        s' = s\<lparr>dcm_count := n,
                               links_to_visit := to_visit,
                               visited := insert current_url (visited s),
                               disk := fs,
                               requested := requested s @ [current_url],
                               printed := out\<rparr>
                    in if n \<ge> max_files then Returned s'
                       else crawl_loop ev save_dir max_files s')))
      else Returned s)"
  by pat_completeness auto
termination
proof (relation "measures [\<lambda>(ev, save_dir, max_files, s). card (fst ` set (site ev) - visited s),
                           \<lambda>(ev, save_dir, max_files, s). length (links_to_visit s)]",
       goal_cases)
  case 1
  show ?case by simp
next
  case 2
  then show ?case by simp
next
  case prems: 3
  have fresh: "card (fst ` set (site ev) - insert u seen) < card (fst ` set (site ev) - seen)"
    if "get_soup ev u = Inr soup" and "u \<notin> seen" for ev u soup seen
  proof -
    have "u \<in> fst ` set (site ev)"
      using that(1)
      by (auto simp: get_soup_def http_get_def split: option.splits dest!: map_of_SomeD
          intro: rev_image_eqI)
    with that(2) show ?thesis
      by (intro psubset_card_mono) auto
  qed
  from fresh [OF prems(5) prems(4)] prems(2,12) show ?case by simp
qed

declare crawl_loop.simps [simp del]

text \<open>\<^verbatim>\<open>crawl_and_convert_dicom(session, start_url, save_dir, max_files)\<close>.\<close>

definition crawl_and_convert_dicom ::
  "env \<Rightarrow> string \<Rightarrow> string \<Rightarrow> int \<Rightarrow> filesystem \<Rightarrow> crawl_end" where
  "crawl_and_convert_dicom ev start_url save_dir max_files fs =
     crawl_loop ev save_dir max_files
       \<lparr>dcm_count = 0, links_to_visit = [start_url], visited = {}, disk = fs,
        requested = [], printed = []\<rparr>"

section \<open>Properties of the path mapping\<close>

lemma partition_at_Some:
  "partition_at sep s = Some (a, b) \<Longrightarrow> s = a @ sep @ b"
proof (induction s arbitrary: a)
  case Nil
  then show ?case by simp
next
  case (Cons c cs)
  show ?case
  proof (cases "take (length sep) (c # cs) = sep")
    case True
    with Cons.prems have "a = []" "b = drop (length sep) (c # cs)" by auto
    with True show ?thesis by (metis append_Nil append_take_drop_id)
  next
    case False
    with Cons.prems obtain a' where a': "partition_at sep cs = Some (a', b)" "a = c # a'"
      by auto
    from Cons.IH [OF a'(1)] a'(2) show ?thesis by simp
  qed
qed

lemma relative_local_path_split:
  "partition_at split_key u = Some (a, b) \<Longrightarrow> relative_local_path u = lstrip_slash b"
  by (simp add: relative_local_path_def split1_def)

lemma lstrip_slash_id: "\<not> (r \<noteq> [] \<and> hd r = CHR ''/'') \<Longrightarrow> lstrip_slash r = r"
  by (cases r) (auto simp: lstrip_slash_def)

lemma path_join_inject:
  "\<not> (r1 \<noteq> [] \<and> hd r1 = CHR ''/'') \<Longrightarrow> \<not> (r2 \<noteq> [] \<and> hd r2 = CHR ''/'') \<Longrightarrow>
   path_join sd r1 = path_join sd r2 \<Longrightarrow> r1 = r2"
  by (auto simp: path_join_def split: if_splits)

text \<open>
  Claim C7, as stated, fails: the mapping is a function of the URL (so it is
  deterministic), but it is not injective under the dataset prefix, because
  \<^verbatim>\<open>lstrip("/")\<close> removes every leading slash of what follows the key. Two distinct URLs
  under \<^verbatim>\<open>https://physionet.org/files/mimic-cxr/2.1.0/\<close> that differ by a doubled slash
  after the key get the same local path.
\<close>

theorem local_path_collision:
  "''https://physionet.org/files/mimic-cxr/2.1.0/files/p10/a.dcm''
     \<noteq> ''https://physionet.org/files/mimic-cxr/2.1.0//files/p10/a.dcm''
   \<and> dcm_local_path ''/content/Dataset''
        ''https://physionet.org/files/mimic-cxr/2.1.0/files/p10/a.dcm''
     = dcm_local_path ''/content/Dataset''
        ''https://physionet.org/files/mimic-cxr/2.1.0//files/p10/a.dcm''"
  by (simp add: dcm_local_path_def relative_local_path_def split1_def split_key_def
      lstrip_slash_def path_join_def)

text \<open>
  Claim C7, amended: the download destination derived from a URL is a function of the URL
  and of the save directory alone, and it is injective on the URLs that share the part up
  to and including the first occurrence of the key \<^verbatim>\<open>mimic-cxr/2.1.0/\<close> and whose
  remainder after the key does not begin with a slash: two distinct such URLs
  never get the same destination.
\<close>

theorem local_path_injective:
  assumes "partition_at split_key u1 = Some (base, r1)"
    and "partition_at split_key u2 = Some (base, r2)"
    and "\<not> (r1 \<noteq> [] \<and> hd r1 = CHR ''/'')"
    and "\<not> (r2 \<noteq> [] \<and> hd r2 = CHR ''/'')"
    and "u1 \<noteq> u2"
  shows "dcm_local_path save_dir u1 \<noteq> dcm_local_path save_dir u2"
proof
  assume "dcm_local_path save_dir u1 = dcm_local_path save_dir u2"
  then have "path_join save_dir r1 = path_join save_dir r2"
    using assms by (simp add: dcm_local_path_def relative_local_path_split lstrip_slash_id)
  then have "r1 = r2"
    using assms(3,4) by (rule path_join_inject [rotated 2])
  then have "u1 = u2"
    using partition_at_Some [OF assms(1)] partition_at_Some [OF assms(2)] by simp
  with assms(5) show False by simp
qed

theorem local_path_injective_witness:
  "partition_at split_key ''https://physionet.org/files/mimic-cxr/2.1.0/files/p10/a.dcm''
     = Some (''https://physionet.org/files/'', ''files/p10/a.dcm'')
   \<and> partition_at split_key ''https://physionet.org/files/mimic-cxr/2.1.0/files/p11/a.dcm''
     = Some (''https://physionet.org/files/'', ''files/p11/a.dcm'')
   \<and> dcm_local_path ''/content/Dataset''
        ''https://physionet.org/files/mimic-cxr/2.1.0/files/p10/a.dcm''
     \<noteq> dcm_local_path ''/content/Dataset''
        ''https://physionet.org/files/mimic-cxr/2.1.0/files/p11/a.dcm''"
proof -
  have p1: "partition_at split_key ''https://physionet.org/files/mimic-cxr/2.1.0/files/p10/a.dcm''
     = Some (''https://physionet.org/files/'', ''files/p10/a.dcm'')"
    by (simp add: split_key_def)
  have p2: "partition_at split_key ''https://physionet.org/files/mimic-cxr/2.1.0/files/p11/a.dcm''
     = Some (''https://physionet.org/files/'', ''files/p11/a.dcm'')"
    by (simp add: split_key_def)
  have h1: "\<not> (''files/p10/a.dcm'' \<noteq> [] \<and> hd ''files/p10/a.dcm'' = CHR ''/'')"
    by simp
  have h2: "\<not> (''files/p11/a.dcm'' \<noteq> [] \<and> hd ''files/p11/a.dcm'' = CHR ''/'')"
    by simp
  have ne: "''https://physionet.org/files/mimic-cxr/2.1.0/files/p10/a.dcm''
     \<noteq> ''https://physionet.org/files/mimic-cxr/2.1.0/files/p11/a.dcm''"
    by simp
  from local_path_injective [OF p1 p2 h1 h2 ne] p1 p2 show ?thesis by blast
qed

section \<open>The quality search, as a list of tested qualities\<close>

text \<open>The quality levels in the order in which the loop tests them.\<close>

definition qualities :: "int list" where
  "qualities = [90, 80, 70, 60, 50, 40, 30, 20, 10]"

text \<open>The search as the specification words it: go through the list of levels, stop at
  the first encoding that fails or fits, remember the last encoding otherwise.\<close>

fun search_list ::
  "(8 word list \<Rightarrow> int \<Rightarrow> bytes option) \<Rightarrow> 8 word list \<Rightarrow> int \<Rightarrow> int list \<Rightarrow> bytes option
   \<Rightarrow> search_end" where
  "search_list enc arr t [] encimg = LoopDone None encimg"
| "search_list enc arr t (q # qs) encimg =
     (case enc arr q of
        None \<Rightarrow> EncodeFailed
      | Some e \<Rightarrow>
          if int (length e) \<le> t then LoopDone (Some e) (Some e)
          else search_list enc arr t qs (Some e))"

lemma quality_loop_list:
  "quality_loop enc arr t 90 None = search_list enc arr t qualities None"
  by (simp add: qualities_def quality_loop.simps split: option.splits)

lemma search_list_find:
  "search_list enc arr t qs encimg =
     (case find (\<lambda>q. enc arr q = None \<or> int (length (the (enc arr q))) \<le> t) qs of
        Some q \<Rightarrow> (case enc arr q of None \<Rightarrow> EncodeFailed | Some e \<Rightarrow> LoopDone (Some e) (Some e))
      | None \<Rightarrow> LoopDone None (if qs = [] then encimg else enc arr (last qs)))"
  by (induction qs arbitrary: encimg) (auto split: option.splits)

lemma quality_loop_find:
  "quality_loop enc arr t 90 None =
     (case find (\<lambda>q. enc arr q = None \<or> int (length (the (enc arr q))) \<le> t) qualities of
        Some q \<Rightarrow> (case enc arr q of None \<Rightarrow> EncodeFailed | Some e \<Rightarrow> LoopDone (Some e) (Some e))
      | None \<Rightarrow> LoopDone None (enc arr 10))"
proof -
  have q: "qualities \<noteq> []" "last qualities = 10"
    by (simp_all add: qualities_def)
  have "quality_loop enc arr t 90 None = search_list enc arr t qualities None"
    by (rule quality_loop_list)
  also have "\<dots> = (case find (\<lambda>q. enc arr q = None \<or> int (length (the (enc arr q))) \<le> t) qualities of
        Some q \<Rightarrow> (case enc arr q of None \<Rightarrow> EncodeFailed | Some e \<Rightarrow> LoopDone (Some e) (Some e))
      | None \<Rightarrow> LoopDone None (enc arr 10))"
    using q by (simp add: search_list_find cong: option.case_cong)
  finally show ?thesis .
qed

lemma find_first_desc:
  "sorted_wrt (>) qs \<Longrightarrow> q \<in> set qs \<Longrightarrow> P q \<Longrightarrow> \<forall>q'\<in>set qs. q < q' \<longrightarrow> \<not> P q'
   \<Longrightarrow> find P qs = Some (q::int)"
  by (induction qs) auto

section \<open>An example world\<close>

text \<open>
  A small server, codec and disk on which the functions can be run: the decoder rejects
  content that starts with the byte 255 and otherwise reads one sample per byte after the
  first, arithmetic is exact, an encoding at quality \<open>q\<close> has \<open>q\<close> bytes, and encoding
  the buffer \<open>[0, 255]\<close> fails at quality 20. There are three ZIP archives, one with a
  member that cannot be extracted and one with a member named like the archive itself,
  and a gzip stream is sound when it starts with the byte 31.
\<close>

definition demo_env :: env where
  "demo_env =
     \<lparr>site = [(''http://h/d/a.dcm'', \<lparr>status_code = 200, hrefs = [], chunks = [[1, 0, 5], [], [10, 7]], intact = True\<rparr>),
              (''http://h/d/gone.dcm'', \<lparr>status_code = 404, hrefs = [], chunks = [[60, 104]], intact = True\<rparr>)],
      urljoin = (\<lambda>base href. base @ href),
      dcm_pixels = (\<lambda>content. if content = [] \<or> hd content = 255 then None
                               else Some (map uint (tl content))),
      rnd = (\<lambda>x. x),
      imencode = (\<lambda>arr q. if q = 20 \<and> arr = [0, 255] then None else Some (replicate (nat q) 7)),
      zip_members = (\<lambda>content.
        if content = [80, 75] then Some [(''x.txt'', [1, 2], True), (''sub/y.txt'', [3], True)]
        else if content = [80, 75, 0] then Some [(''x.txt'', [1, 2], True), (''bad.bin'', [9], False)]
        else if content = [80, 75, 1] then Some [(''a.zip'', [], False)]
        else None),
      gunzip = (\<lambda>content. (tl content, content \<noteq> [] \<and> hd content = 31)),
      undeletable = {''/ro/a.dcm''}\<rparr>"

definition demo_fs :: filesystem where
  "demo_fs = \<lparr>files = [''/d/a.dcm'' \<mapsto> [1, 0, 5, 10, 7], ''/ro/a.dcm'' \<mapsto> [1, 0, 5, 10, 7],
                       ''/d/bad.dcm'' \<mapsto> [255, 3], ''/d/hard.dcm'' \<mapsto> [1, 3, 9],
                       ''/d/gone.dcm'' \<mapsto> [9, 9], ''/d/t.zip'' \<mapsto> [80, 75],
                       ''/d/broken.zip'' \<mapsto> [80, 75, 0], ''/d/a.zip'' \<mapsto> [80, 75, 1],
                       ''/d/notes.csv.gz'' \<mapsto> [31, 5, 6], ''/d/cut.gz'' \<mapsto> [30, 5]],
              dirs = {''/d'', ''/ro''}\<rparr>"

lemma demo_read:
  "dcmread demo_env demo_fs ''/d/a.dcm'' = Some [0, 5, 10, 7]"
  "dcmread demo_env demo_fs ''/ro/a.dcm'' = Some [0, 5, 10, 7]"
  "dcmread demo_env demo_fs ''/d/hard.dcm'' = Some [3, 9]"
  "dcmread demo_env demo_fs ''/d/bad.dcm'' = None"
  by (simp_all add: dcmread_def demo_env_def demo_fs_def)

lemma demo_normalize:
  "normalize_pixels (rnd demo_env) [0, 5, 10, 7] = Inr [0, 127, 255, 178]"
  "normalize_pixels (rnd demo_env) [3, 9] = Inr [0, 255]"
  by (simp_all add: demo_env_def normalize_pixels_def rescale_def float_div_def to_uint8_def)

section \<open>Properties of the download\<close>

lemma path_prefixes_self: "p \<in> set (path_prefixes p)"
  by (simp add: path_prefixes_def)

text \<open>
  Claim C10: when the response has an error status (the codes for which
  \<^verbatim>\<open>raise_for_status\<close> raises, 400 to 599), \<^verbatim>\<open>download_file\<close> leaves every file as it was:
  the destination is neither created nor truncated nor written. The parent directories of
  the destination have been made before the request all the same; when the destination has
  no directory part, \<^verbatim>\<open>os.makedirs\<close> raises before anything happens.
\<close>

theorem download_http_error:
  assumes "http_get ev file_url = Inr r"
    and "400 \<le> status_code r" and "status_code r < 600"
  shows "files (snd (download_file ev file_url local_path fs)) = files fs
    \<and> (dirname local_path \<noteq> [] \<longrightarrow>
         download_file ev file_url local_path fs =
           (Inl (HTTPError (status_code r)),
            fs\<lparr>dirs := dirs fs \<union> set (path_prefixes (dirname local_path))\<rparr>)
         \<and> dirname local_path \<in> dirs (snd (download_file ev file_url local_path fs)))
    \<and> (dirname local_path = [] \<longrightarrow>
         download_file ev file_url local_path fs = (Inl OSError, fs))"
  using assms
  by (simp add: download_file_def makedirs_def raise_for_status_def path_prefixes_def)

theorem download_http_error_witness:
  "download_file demo_env ''http://h/d/gone.dcm'' ''/d/gone.dcm'' demo_fs =
     (Inl (HTTPError 404), demo_fs)
   \<and> files demo_fs ''/d/gone.dcm'' = Some [9, 9]
   \<and> files (snd (download_file demo_env ''http://h/d/gone.dcm'' ''/new/x/gone.dcm'' demo_fs))
       = files demo_fs
   \<and> ''/new/x'' \<in> dirs (snd (download_file demo_env ''http://h/d/gone.dcm'' ''/new/x/gone.dcm'' demo_fs))"
proof -
  let ?r = "\<lparr>status_code = 404, hrefs = [], chunks = [[60, 104]], intact = True\<rparr> :: response"
  have g: "http_get demo_env ''http://h/d/gone.dcm'' = Inr ?r"
    by (simp add: http_get_def demo_env_def)
  have s: "400 \<le> status_code ?r" "status_code ?r < 600" by simp_all
  have d1: "dirname ''/d/gone.dcm'' = ''/d''" and d2: "dirname ''/new/x/gone.dcm'' = ''/new/x''"
    by (simp_all add: dirname_def)
  have p: "set (path_prefixes ''/d'') \<subseteq> dirs demo_fs"
    by (simp add: path_prefixes_def demo_fs_def)
  have e: "demo_fs\<lparr>dirs := dirs demo_fs \<union> set (path_prefixes ''/d'')\<rparr> = demo_fs"
    using p by (simp add: Un_absorb2)
  have f: "files demo_fs ''/d/gone.dcm'' = Some [9, 9]"
    by (simp add: demo_fs_def)
  from download_http_error [OF g s, of "''/d/gone.dcm''" demo_fs]
    download_http_error [OF g s, of "''/new/x/gone.dcm''" demo_fs] f
  show ?thesis by (simp add: d1 d2 e path_prefixes_self)
qed

section \<open>Properties of the transcoder\<close>

lemma save_step:
  assumes "dcmread ev fs dcm_path = Some arr"
    and "normalize_pixels (rnd ev) arr = Inr arr8"
    and "quality_loop (imencode ev) arr8 t 90 None = LoopDone encoded encimg"
    and "(if encoded = None then encimg else encoded) = Some chosen"
    and "dirname jpg_path \<noteq> []" and "last jpg_path \<noteq> CHR ''/''"
  shows "dicom_to_jpg ev dcm_path jpg_path t fs =
     (Inr (Converted (length chosen)),
      fs\<lparr>dirs := dirs fs \<union> set (path_prefixes (dirname jpg_path)),
         files := (if dcm_path \<in> undeletable ev then (files fs)(jpg_path \<mapsto> chosen)
                   else ((files fs)(jpg_path \<mapsto> chosen))(dcm_path := None))\<rparr>)"
proof -
  have ne: "jpg_path \<noteq> []" using assms(5) by (auto simp: dirname_def)
  have ex: "files fs dcm_path \<noteq> None"
    using assms(1) by (auto simp: dcmread_def split: option.splits)
  show ?thesis
    using assms ne ex
    by (auto simp: dicom_to_jpg_def makedirs_def open_wb_def append_file_def os_remove_def
        fun_upd_twist)
qed

lemma dicom_to_jpg_accepts:
  assumes "dcmread ev fs dcm_path = Some arr"
    and "normalize_pixels (rnd ev) arr = Inr arr8"
    and "\<forall>q\<in>set qualities. imencode ev arr8 q = Some (enc q)"
    and "dirname jpg_path \<noteq> []" and "last jpg_path \<noteq> CHR ''/''"
    and "chosen = (case find (\<lambda>q. int (length (enc q)) \<le> t) qualities of
                     Some q \<Rightarrow> enc q | None \<Rightarrow> enc 10)"
  shows "dicom_to_jpg ev dcm_path jpg_path t fs =
     (Inr (Converted (length chosen)),
      fs\<lparr>dirs := dirs fs \<union> set (path_prefixes (dirname jpg_path)),
         files := (if dcm_path \<in> undeletable ev then (files fs)(jpg_path \<mapsto> chosen)
                   else ((files fs)(jpg_path \<mapsto> chosen))(dcm_path := None))\<rparr>)"
proof -
  let ?P = "\<lambda>q. imencode ev arr8 q = None \<or> int (length (the (imencode ev arr8 q))) \<le> t"
  let ?Q = "\<lambda>q. int (length (enc q)) \<le> t"
  have same: "find ?P qualities = find ?Q qualities"
    using assms(3) by (intro find_cong) auto
  have ten: "imencode ev arr8 10 = Some (enc 10)"
    using assms(3) by (simp add: qualities_def)
  obtain encoded encimg where
    loop: "quality_loop (imencode ev) arr8 t 90 None = LoopDone encoded encimg"
    and sel: "(if encoded = None then encimg else encoded) = Some chosen"
  proof (cases "find ?Q qualities")
    case None
    then have "quality_loop (imencode ev) arr8 t 90 None = LoopDone None (Some (enc 10))"
      by (simp add: quality_loop_find same ten)
    with None assms(6) that show ?thesis by simp
  next
    case (Some q)
    then have "q \<in> set qualities" by (auto simp: find_Some_iff)
    with assms(3) have "imencode ev arr8 q = Some (enc q)" by blast
    with Some have "quality_loop (imencode ev) arr8 t 90 None
        = LoopDone (Some (enc q)) (Some (enc q))"
      by (simp add: quality_loop_find same)
    with Some assms(6) that show ?thesis by simp
  qed
  from save_step [OF assms(1,2) loop sel assms(4,5)] show ?thesis .
qed

text \<open>
  Claim C4: when the source decodes, the buffer normalises and the encoder succeeds at every
  tested quality, the job writes to the target the first encoding, in the order 90, 80,
  ..., 10, whose length is at most the ceiling, and the encoding at quality 10 when none
  is: the ceiling is a target, not a bound.
\<close>

theorem quality_search_writes:
  assumes "dcmread ev fs dcm_path = Some arr"
    and "normalize_pixels (rnd ev) arr = Inr arr8"
    and "\<forall>q\<in>set qualities. imencode ev arr8 q = Some (enc q)"
    and "dirname jpg_path \<noteq> []" and "last jpg_path \<noteq> CHR ''/''"
    and "jpg_path \<noteq> dcm_path"
  shows "fst (dicom_to_jpg ev dcm_path jpg_path t fs) =
           Inr (Converted (length
             (case find (\<lambda>q. int (length (enc q)) \<le> t) qualities of
                Some q \<Rightarrow> enc q | None \<Rightarrow> enc 10)))
       \<and> files (snd (dicom_to_jpg ev dcm_path jpg_path t fs)) jpg_path =
           Some (case find (\<lambda>q. int (length (enc q)) \<le> t) qualities of
                   Some q \<Rightarrow> enc q | None \<Rightarrow> enc 10)"
proof -
  from dicom_to_jpg_accepts [OF assms(1-5) refl, of t] assms(6)
  show ?thesis by simp
qed

theorem quality_search_writes_witness:
  "files (snd (dicom_to_jpg demo_env ''/d/a.dcm'' ''/d/a.jpg'' 35 demo_fs)) ''/d/a.jpg''
     = Some (replicate 30 7)
   \<and> files (snd (dicom_to_jpg demo_env ''/d/a.dcm'' ''/d/a.jpg'' 5 demo_fs)) ''/d/a.jpg''
     = Some (replicate 10 7)"
proof -
  have e: "\<forall>q\<in>set qualities. imencode demo_env [0, 127, 255, 178] q = Some (replicate (nat q) 7)"
    by (simp add: demo_env_def qualities_def)
  have d: "dirname ''/d/a.jpg'' \<noteq> []" "last ''/d/a.jpg'' \<noteq> CHR ''/''" "''/d/a.jpg'' \<noteq> ''/d/a.dcm''"
    by (simp_all add: dirname_def)
  from quality_search_writes [OF demo_read(1) demo_normalize(1) e d, of 35]
    quality_search_writes [OF demo_read(1) demo_normalize(1) e d, of 5]
  show ?thesis by (simp add: qualities_def)
qed

lemma quality_loop_EncodeFailed:
  assumes "q \<in> set qualities" and "enc arr q = None"
    and "\<forall>q'\<in>set qualities. q < q' \<longrightarrow> (\<exists>e. enc arr q' = Some e \<and> t < int (length e))"
  shows "quality_loop enc arr t 90 None = EncodeFailed"
proof -
  let ?P = "\<lambda>q. enc arr q = None \<or> int (length (the (enc arr q))) \<le> t"
  have "sorted_wrt (>) qualities" by (simp add: qualities_def)
  moreover have "\<forall>q'\<in>set qualities. q < q' \<longrightarrow> \<not> ?P q'"
    using assms(3) by fastforce
  ultimately have "find ?P qualities = Some q"
    using assms(1,2) by (intro find_first_desc) auto
  with assms(2) show ?thesis by (simp add: quality_loop_find)
qed

text \<open>
  Claim C9: a source that cannot be decoded, and an encoding that fails at the quality step
  the search has reached, both end the job with the file system exactly as it was: no
  target is written and the source stays. When the job succeeds, the files are those of
  before with the target written and the source removed; when the removal is refused the
  job succeeds all the same and the source stays.
\<close>

theorem dicom_to_jpg_outcomes:
  "(dcmread ev fs dcm_path = None \<longrightarrow>
      dicom_to_jpg ev dcm_path jpg_path t fs = (Inr CouldNotRead, fs))
   \<and> (dcmread ev fs dcm_path = Some arr \<and> normalize_pixels (rnd ev) arr = Inr arr8
        \<and> q \<in> set qualities \<and> imencode ev arr8 q = None
        \<and> (\<forall>q'\<in>set qualities. q < q' \<longrightarrow>
              (\<exists>e. imencode ev arr8 q' = Some e \<and> t < int (length e))) \<longrightarrow>
      dicom_to_jpg ev dcm_path jpg_path t fs = (Inr JpegEncodeFailed, fs))
   \<and> (dicom_to_jpg ev dcm_path jpg_path t fs = (Inr (Converted n), fs') \<longrightarrow>
      (\<exists>encoded. length encoded = n
         \<and> files fs' =
             (if dcm_path \<in> undeletable ev then (files fs)(jpg_path \<mapsto> encoded)
              else ((files fs)(jpg_path \<mapsto> encoded))(dcm_path := None))))"
proof (intro conjI impI)
  assume "dcmread ev fs dcm_path = None"
  then show "dicom_to_jpg ev dcm_path jpg_path t fs = (Inr CouldNotRead, fs)"
    by (simp add: dicom_to_jpg_def)
next
  assume a: "dcmread ev fs dcm_path = Some arr \<and> normalize_pixels (rnd ev) arr = Inr arr8
        \<and> q \<in> set qualities \<and> imencode ev arr8 q = None
        \<and> (\<forall>q'\<in>set qualities. q < q' \<longrightarrow>
              (\<exists>e. imencode ev arr8 q' = Some e \<and> t < int (length e)))"
  then have "quality_loop (imencode ev) arr8 t 90 None = EncodeFailed"
    by (intro quality_loop_EncodeFailed [of q]) blast+
  with a show "dicom_to_jpg ev dcm_path jpg_path t fs = (Inr JpegEncodeFailed, fs)"
    by (simp add: dicom_to_jpg_def)
next
  assume c: "dicom_to_jpg ev dcm_path jpg_path t fs = (Inr (Converted n), fs')"
  then obtain arr where arr: "dcmread ev fs dcm_path = Some arr"
    by (cases "dcmread ev fs dcm_path") (auto simp: dicom_to_jpg_def)
  from c arr obtain arr8 where arr8: "normalize_pixels (rnd ev) arr = Inr arr8"
    by (cases "normalize_pixels (rnd ev) arr") (auto simp: dicom_to_jpg_def)
  from c arr arr8 obtain encoded encimg where
    loop: "quality_loop (imencode ev) arr8 t 90 None = LoopDone encoded encimg"
    by (cases "quality_loop (imencode ev) arr8 t 90 None") (auto simp: dicom_to_jpg_def)
  from c arr arr8 loop obtain chosen where
    sel: "(if encoded = None then encimg else encoded) = Some chosen"
    by (cases "if encoded = None then encimg else encoded") (auto simp: dicom_to_jpg_def)
  have d: "dirname jpg_path \<noteq> []"
    using c arr arr8 loop sel
    by (auto simp: dicom_to_jpg_def makedirs_def split: if_splits)
  have l: "last jpg_path \<noteq> CHR ''/''"
    using c arr arr8 loop sel d
    by (auto simp: dicom_to_jpg_def makedirs_def open_wb_def split: if_splits)
  from save_step [OF arr arr8 loop sel d l] c
  show "\<exists>encoded. length encoded = n
         \<and> files fs' =
             (if dcm_path \<in> undeletable ev then (files fs)(jpg_path \<mapsto> encoded)
              else ((files fs)(jpg_path \<mapsto> encoded))(dcm_path := None))"
    by (intro exI [of _ chosen]) auto
qed

theorem dicom_to_jpg_outcomes_witness:
  "dicom_to_jpg demo_env ''/d/bad.dcm'' ''/d/bad.jpg'' 1000000 demo_fs = (Inr CouldNotRead, demo_fs)
   \<and> dicom_to_jpg demo_env ''/d/hard.dcm'' ''/d/hard.jpg'' 15 demo_fs
       = (Inr JpegEncodeFailed, demo_fs)
   \<and> fst (dicom_to_jpg demo_env ''/ro/a.dcm'' ''/ro/a.jpg'' 35 demo_fs) = Inr (Converted 30)
   \<and> (\<exists>encoded. length encoded = 30
        \<and> files (snd (dicom_to_jpg demo_env ''/ro/a.dcm'' ''/ro/a.jpg'' 35 demo_fs))
            = (files demo_fs)(''/ro/a.jpg'' \<mapsto> encoded))
   \<and> fst (dicom_to_jpg demo_env ''/d/a.dcm'' ''/d/a.jpg'' 35 demo_fs) = Inr (Converted 30)
   \<and> (\<exists>encoded. length encoded = 30
        \<and> files (snd (dicom_to_jpg demo_env ''/d/a.dcm'' ''/d/a.jpg'' 35 demo_fs))
            = ((files demo_fs)(''/d/a.jpg'' \<mapsto> encoded))(''/d/a.dcm'' := None))"
proof -
  have f: "20 \<in> set qualities" "imencode demo_env [0, 255] 20 = None"
    "\<forall>q'\<in>set qualities. 20 < q' \<longrightarrow> (\<exists>e. imencode demo_env [0, 255] q' = Some e \<and> 15 < int (length e))"
    by (simp_all add: demo_env_def qualities_def)
  have e: "\<forall>q\<in>set qualities. imencode demo_env [0, 127, 255, 178] q = Some (replicate (nat q) 7)"
    by (simp add: demo_env_def qualities_def)
  have d: "dirname ''/ro/a.jpg'' \<noteq> []" "last ''/ro/a.jpg'' \<noteq> CHR ''/''" "''/ro/a.jpg'' \<noteq> ''/ro/a.dcm''"
    "dirname ''/d/a.jpg'' \<noteq> []" "last ''/d/a.jpg'' \<noteq> CHR ''/''" "''/d/a.jpg'' \<noteq> ''/d/a.dcm''"
    by (simp_all add: dirname_def)
  have r1: "fst (dicom_to_jpg demo_env ''/ro/a.dcm'' ''/ro/a.jpg'' 35 demo_fs) = Inr (Converted 30)"
    using dicom_to_jpg_accepts [OF demo_read(2) demo_normalize(1) e d(1,2) refl, of 35]
    by (simp add: qualities_def)
  have r2: "fst (dicom_to_jpg demo_env ''/d/a.dcm'' ''/d/a.jpg'' 35 demo_fs) = Inr (Converted 30)"
    using dicom_to_jpg_accepts [OF demo_read(1) demo_normalize(1) e d(4,5) refl, of 35]
    by (simp add: qualities_def)
  have u: "''/ro/a.dcm'' \<in> undeletable demo_env" "''/d/a.dcm'' \<notin> undeletable demo_env"
    by (simp_all add: demo_env_def)
  note t1 = dicom_to_jpg_outcomes [of demo_env demo_fs "''/d/bad.dcm''" "''/d/bad.jpg''" 1000000]
  note t2 = dicom_to_jpg_outcomes [of demo_env demo_fs "''/d/hard.dcm''" "''/d/hard.jpg''" 15
      "[3, 9]" "[0, 255]" 20]
  note t3 = dicom_to_jpg_outcomes [of demo_env demo_fs "''/ro/a.dcm''" "''/ro/a.jpg''" 35 _ _ _ 30
      "snd (dicom_to_jpg demo_env ''/ro/a.dcm'' ''/ro/a.jpg'' 35 demo_fs)"]
  note t4 = dicom_to_jpg_outcomes [of demo_env demo_fs "''/d/a.dcm''" "''/d/a.jpg''" 35 _ _ _ 30
      "snd (dicom_to_jpg demo_env ''/d/a.dcm'' ''/d/a.jpg'' 35 demo_fs)"]
  have c1: "dicom_to_jpg demo_env ''/d/bad.dcm'' ''/d/bad.jpg'' 1000000 demo_fs = (Inr CouldNotRead, demo_fs)"
    using t1 demo_read(4) by blast
  have c2: "dicom_to_jpg demo_env ''/d/hard.dcm'' ''/d/hard.jpg'' 15 demo_fs = (Inr JpegEncodeFailed, demo_fs)"
    using t2 demo_read(3) demo_normalize(2) f by blast
  have p3: "dicom_to_jpg demo_env ''/ro/a.dcm'' ''/ro/a.jpg'' 35 demo_fs
      = (Inr (Converted 30), snd (dicom_to_jpg demo_env ''/ro/a.dcm'' ''/ro/a.jpg'' 35 demo_fs))"
    using r1 by (simp add: prod_eq_iff)
  have p4: "dicom_to_jpg demo_env ''/d/a.dcm'' ''/d/a.jpg'' 35 demo_fs
      = (Inr (Converted 30), snd (dicom_to_jpg demo_env ''/d/a.dcm'' ''/d/a.jpg'' 35 demo_fs))"
    using r2 by (simp add: prod_eq_iff)
  have c3: "\<exists>encoded. length encoded = 30
        \<and> files (snd (dicom_to_jpg demo_env ''/ro/a.dcm'' ''/ro/a.jpg'' 35 demo_fs))
            = (files demo_fs)(''/ro/a.jpg'' \<mapsto> encoded)"
    using t3 p3 u(1) by auto
  have c4: "\<exists>encoded. length encoded = 30
        \<and> files (snd (dicom_to_jpg demo_env ''/d/a.dcm'' ''/d/a.jpg'' 35 demo_fs))
            = ((files demo_fs)(''/d/a.jpg'' \<mapsto> encoded))(''/d/a.dcm'' := None)"
    using t4 p4 u(2) by auto
  from c1 c2 r1 c3 r2 c4 show ?thesis by blast
qed

section \<open>Properties of the normalisation\<close>

lemma rescale_all_map:
  "\<forall>x\<in>set xs. rescale r mn mx x = Inr (f x) \<Longrightarrow> rescale_all r mn mx xs = Inr (map f xs)"
  by (induction xs) auto

lemma to_uint8_exact: "0 \<le> y \<Longrightarrow> y \<le> 255 \<Longrightarrow> uint (to_uint8 y) = \<lfloor>y\<rfloor>"
proof -
  assume a: "0 \<le> y" "y \<le> 255"
  then have "0 \<le> \<lfloor>y\<rfloor>" "\<lfloor>y\<rfloor> \<le> 255" by (simp_all add: floor_le_iff)
  then have "\<lfloor>y\<rfloor> mod 256 = \<lfloor>y\<rfloor>" by simp
  with a show ?thesis by (simp add: to_uint8_def uint_word_of_int)
qed

lemma rescale_bounds:
  assumes mono: "\<And>x y. x \<le> y \<Longrightarrow> r x \<le> r y"
    and r0: "r 0 = 0" and r1: "r 1 = 1" and r255: "r 255 = 255"
    and range: "mn \<le> x" "x \<le> mx"
    and wide: "\<not> r (mx - mn) < 1 / 1000000"
  shows "rescale r mn mx x = Inr (to_uint8 (r (r (r (x - mn) / r (mx - mn)) * 255)))"
    and "0 \<le> r (r (r (x - mn) / r (mx - mn)) * 255)"
    and "r (r (r (x - mn) / r (mx - mn)) * 255) \<le> 255"
proof -
  let ?d = "r (mx - mn)" and ?a = "r (x - mn)"
  have d: "0 < ?d" using wide by simp
  have a0: "0 \<le> ?a" using mono [of 0 "x - mn"] range(1) r0 by simp
  have ad: "?a \<le> ?d" using mono [of "x - mn" "mx - mn"] range(2) by simp
  have q0: "0 \<le> r (?a / ?d)" using mono [of 0 "?a / ?d"] a0 d r0 by simp
  have q1: "r (?a / ?d) \<le> 1" using mono [of "?a / ?d" 1] ad d r1 by simp
  show "0 \<le> r (r (?a / ?d) * 255)"
    using mono [of 0 "r (?a / ?d) * 255"] q0 r0 by simp
  show "r (r (?a / ?d) * 255) \<le> 255"
    using mono [of "r (?a / ?d) * 255" 255] q1 r255 by simp
  show "rescale r mn mx x = Inr (to_uint8 (r (r (?a / ?d) * 255)))"
    using d by (simp add: rescale_def float_div_def)
qed

text \<open>A rounding used to run the normalisation: down to the next multiple of 1/1024.\<close>

definition round_down :: "real \<Rightarrow> real" where
  "round_down x = of_int \<lfloor>x * 1024\<rfloor> / 1024"

lemma round_down_mono: "x \<le> y \<Longrightarrow> round_down x \<le> round_down y"
  by (simp add: round_down_def divide_right_mono floor_mono)

text \<open>
  Claim C5: let the rounding to \<^verbatim>\<open>float32\<close> be monotone and leave 0, 1 and 255 as they are,
  and let the buffer be non-empty. When the (rounded) difference of the largest and the
  smallest sample is below \<open>10\<^sup>-\<^sup>6\<close>, in particular when all samples are equal, the
  result is all zero. Otherwise every sample is rescaled by
  \<^verbatim>\<open>(value - min) / (max - min) * 255\<close>, the rescaled value lies in \<open>[0, 255]\<close>, and the
  eight-bit result is its integer part, without wrap-around. In neither case is there a
  division by zero.
\<close>

theorem normalize_pixels_correct:
  fixes r :: "real \<Rightarrow> real" and arr :: "int list"
  defines "xs \<equiv> map (\<lambda>v. r (of_int v)) arr"
  defines "mn \<equiv> Min (set xs)" and "mx \<equiv> Max (set xs)"
  assumes mono: "\<And>x y. x \<le> y \<Longrightarrow> r x \<le> r y"
    and r0: "r 0 = 0" and r1: "r 1 = 1" and r255: "r 255 = 255"
    and ne: "arr \<noteq> []"
  shows "(r (mx - mn) < 1 / 1000000 \<longrightarrow>
           normalize_pixels r arr = Inr (replicate (length arr) 0))
     \<and> (\<not> r (mx - mn) < 1 / 1000000 \<longrightarrow>
           (\<exists>ys. normalize_pixels r arr = Inr ys \<and> length ys = length arr
              \<and> (\<forall>i<length arr.
                    0 \<le> r (r (r (xs ! i - mn) / r (mx - mn)) * 255)
                  \<and> r (r (r (xs ! i - mn) / r (mx - mn)) * 255) \<le> 255
                  \<and> uint (ys ! i) = \<lfloor>r (r (r (xs ! i - mn) / r (mx - mn)) * 255)\<rfloor>)))
     \<and> ((\<forall>v\<in>set arr. v = hd arr) \<longrightarrow>
           normalize_pixels r arr = Inr (replicate (length arr) 0))
     \<and> normalize_pixels r arr \<noteq> Inl ZeroDivisionError"
proof -
  let ?y = "\<lambda>x. r (r (r (x - mn) / r (mx - mn)) * 255)"
  have xs_ne: "xs \<noteq> []" using ne by (simp add: xs_def)
  have rng: "mn \<le> x \<and> x \<le> mx" if "x \<in> set xs" for x
    using that by (simp add: mn_def mx_def)
  have narrow: "normalize_pixels r arr = Inr (replicate (length arr) 0)"
    if "r (mx - mn) < 1 / 1000000"
    using that xs_ne
    by (simp add: normalize_pixels_def Let_def xs_def [symmetric] mn_def mx_def map_replicate_const)
       (simp add: xs_def)
  have wide: "normalize_pixels r arr = Inr (map (\<lambda>x. to_uint8 (?y x)) xs)"
    if w: "\<not> r (mx - mn) < 1 / 1000000"
  proof -
    have "\<forall>x\<in>set xs. rescale r mn mx x = Inr (to_uint8 (?y x))"
      using rescale_bounds(1) [OF mono r0 r1 r255 _ _ w] rng by blast
    then have "rescale_all r mn mx xs = Inr (map (\<lambda>x. to_uint8 (?y x)) xs)"
      by (rule rescale_all_map)
    with w xs_ne show ?thesis
      by (simp add: normalize_pixels_def Let_def xs_def [symmetric] mn_def mx_def)
  qed
  have c2: "\<exists>ys. normalize_pixels r arr = Inr ys \<and> length ys = length arr
              \<and> (\<forall>i<length arr. 0 \<le> ?y (xs ! i) \<and> ?y (xs ! i) \<le> 255
                    \<and> uint (ys ! i) = \<lfloor>?y (xs ! i)\<rfloor>)"
    if w: "\<not> r (mx - mn) < 1 / 1000000"
  proof (intro exI conjI allI impI)
    show "normalize_pixels r arr = Inr (map (\<lambda>x. to_uint8 (?y x)) xs)"
      by (rule wide [OF w])
    show "length (map (\<lambda>x. to_uint8 (?y x)) xs) = length arr" by (simp add: xs_def)
    fix i assume i: "i < length arr"
    then have m: "xs ! i \<in> set xs" by (simp add: xs_def)
    show b0: "0 \<le> ?y (xs ! i)"
      using rescale_bounds(2) [OF mono r0 r1 r255 _ _ w] rng [OF m] by blast
    show b1: "?y (xs ! i) \<le> 255"
      using rescale_bounds(3) [OF mono r0 r1 r255 _ _ w] rng [OF m] by blast
    from i have "map (\<lambda>x. to_uint8 (?y x)) xs ! i = to_uint8 (?y (xs ! i))"
      by (simp add: xs_def)
    then show "uint (map (\<lambda>x. to_uint8 (?y x)) xs ! i) = \<lfloor>?y (xs ! i)\<rfloor>"
      using to_uint8_exact [OF b0 b1] by simp
  qed
  have c3: "normalize_pixels r arr = Inr (replicate (length arr) 0)"
    if eq: "\<forall>v\<in>set arr. v = hd arr"
  proof -
    have "set xs = {r (of_int (hd arr))}"
      using eq ne by (auto simp: xs_def)
    then have "mx - mn = 0" by (simp add: mn_def mx_def)
    then have "r (mx - mn) < 1 / 1000000" using r0 by simp
    then show ?thesis by (rule narrow)
  qed
  have c4: "normalize_pixels r arr \<noteq> Inl ZeroDivisionError"
    using narrow wide by (cases "r (mx - mn) < 1 / 1000000") auto
  from narrow c2 c3 c4 show ?thesis by blast
qed

theorem normalize_pixels_correct_witness:
  "normalize_pixels round_down [0, 5, 10, 7] = Inr [0, 127, 255, 178]
   \<and> normalize_pixels round_down [3, 3, 3] = Inr [0, 0, 0]
   \<and> normalize_pixels round_down [0, 5, 10, 7] \<noteq> Inl ZeroDivisionError"
proof -
  have r: "round_down 0 = 0" "round_down 1 = 1" "round_down 255 = 255"
    by (simp_all add: round_down_def)
  have v: "normalize_pixels round_down [0, 5, 10, 7] = Inr [0, 127, 255, 178]"
    by code_simp
  have e: "\<forall>v\<in>set [3, 3, 3 :: int]. v = hd [3, 3, 3]" by simp
  note t1 = normalize_pixels_correct [of round_down "[0, 5, 10, 7]", OF round_down_mono r]
  note t2 = normalize_pixels_correct [of round_down "[3, 3, 3]", OF round_down_mono r]
  have a: "normalize_pixels round_down [0, 5, 10, 7] \<noteq> Inl ZeroDivisionError"
    using t1 by blast
  have "normalize_pixels round_down [3, 3, 3] = Inr (replicate (length [3, 3, 3 :: int]) 0)"
    using t2 e by blast
  then have b: "normalize_pixels round_down [3, 3, 3] = Inr [0, 0, 0]"
    by (simp add: numeral_3_eq_3)
  from v a b show ?thesis by blast
qed

section \<open>Properties of the archive extraction\<close>

text \<open>The paths to which \<^verbatim>\<open>extractall\<close> writes the members of an archive.\<close>

definition targets :: "string \<Rightarrow> (string \<times> bytes \<times> bool) list \<Rightarrow> string set" where
  "targets folder members = (\<lambda>(name, data, ok). path_join folder name) ` set members"

lemma extractall_frame:
  "extractall folder members fs = (r, fs') \<Longrightarrow> p \<notin> targets folder members \<Longrightarrow>
   files fs' p = files fs p"
proof (induction members arbitrary: fs)
  case Nil
  then show ?case by simp
next
  case (Cons m members)
  obtain name data ok where m: "m = (name, data, ok)" by (cases m)
  let ?t = "path_join folder name"
  have pt: "p \<noteq> ?t" and pr: "p \<notin> targets folder members"
    using Cons.prems(2) by (auto simp: targets_def m)
  let ?fs1 = "case makedirs (dirname ?t) fs of Inl e \<Rightarrow> fs | Inr fs' \<Rightarrow> fs'"
  have f1: "files ?fs1 = files fs"
    by (auto simp: makedirs_def)
  show ?case
  proof (cases "open_wb ?t ?fs1")
    case (Inl e)
    with Cons.prems(1) f1 show ?thesis by (auto simp: m Let_def)
  next
    case (Inr fs2)
    let ?fs3 = "append_file ?t data fs2"
    have f3: "files ?fs3 p = files fs p"
      using Inr f1 pt by (auto simp: open_wb_def append_file_def split: if_splits)
    show ?thesis
    proof (cases ok)
      case True
      with Cons.prems(1) Inr have "extractall folder members ?fs3 = (r, fs')"
        by (simp add: m Let_def)
      from Cons.IH [OF this pr] f3 show ?thesis by simp
    next
      case False
      with Cons.prems(1) Inr have "fs' = ?fs3" by (simp add: m Let_def)
      with f3 show ?thesis by simp
    qed
  qed
qed

lemma extractall_keeps:
  "extractall folder members fs = (r, fs') \<Longrightarrow> files fs p \<noteq> None \<Longrightarrow> files fs' p \<noteq> None"
proof (induction members arbitrary: fs)
  case Nil
  then show ?case by simp
next
  case (Cons m members)
  obtain name data ok where m: "m = (name, data, ok)" by (cases m)
  let ?t = "path_join folder name"
  let ?fs1 = "case makedirs (dirname ?t) fs of Inl e \<Rightarrow> fs | Inr fs' \<Rightarrow> fs'"
  have f1: "files ?fs1 = files fs"
    by (auto simp: makedirs_def)
  show ?case
  proof (cases "open_wb ?t ?fs1")
    case (Inl e)
    with Cons.prems f1 show ?thesis by (auto simp: m Let_def)
  next
    case (Inr fs2)
    let ?fs3 = "append_file ?t data fs2"
    have f3: "files ?fs3 p \<noteq> None"
      using Inr f1 Cons.prems(2) by (auto simp: open_wb_def append_file_def split: if_splits)
    show ?thesis
    proof (cases ok)
      case True
      with Cons.prems(1) Inr have "extractall folder members ?fs3 = (r, fs')"
        by (simp add: m Let_def)
      from Cons.IH [OF this f3] show ?thesis .
    next
      case False
      with Cons.prems(1) Inr have "fs' = ?fs3" by (simp add: m Let_def)
      with f3 show ?thesis by simp
    qed
  qed
qed

lemma extractall_all_written:
  "extractall folder members fs = (None, fs') \<Longrightarrow> p \<in> targets folder members \<Longrightarrow>
   files fs' p \<noteq> None"
proof (induction members arbitrary: fs)
  case Nil
  then show ?case by (simp add: targets_def)
next
  case (Cons m members)
  obtain name data ok where m: "m = (name, data, ok)" by (cases m)
  let ?t = "path_join folder name"
  let ?fs1 = "case makedirs (dirname ?t) fs of Inl e \<Rightarrow> fs | Inr fs' \<Rightarrow> fs'"
  show ?case
  proof (cases "open_wb ?t ?fs1")
    case (Inl e)
    with Cons.prems show ?thesis by (auto simp: m Let_def)
  next
    case (Inr fs2)
    let ?fs3 = "append_file ?t data fs2"
    have ok: ok and rest: "extractall folder members ?fs3 = (None, fs')"
      using Cons.prems(1) Inr by (auto simp: m Let_def split: if_splits)
    have w: "files ?fs3 ?t \<noteq> None" by (simp add: append_file_def)
    show ?thesis
    proof (cases "p = ?t")
      case True
      with extractall_keeps [OF rest w] show ?thesis by simp
    next
      case False
      with Cons.prems(2) have "p \<in> targets folder members" by (auto simp: targets_def m)
      from Cons.IH [OF rest this] show ?thesis .
    qed
  qed
qed

text \<open>
  Claim C8, as stated, fails for a ZIP archive with a member that is extracted onto the
  archive's own path: opening the target truncates the archive, the member can then no
  longer be read, and the failed extraction leaves an archive that is not the original.
\<close>

theorem self_named_member_breaks_cleanup:
  "files demo_fs ''/d/a.zip'' = Some [80, 75, 1]
   \<and> fst (extract_if_archive demo_env ''/d/a.zip'' demo_fs) = ErrorExtracting BadZipFile
   \<and> files (snd (extract_if_archive demo_env ''/d/a.zip'' demo_fs)) ''/d/a.zip'' = Some []"
  by (simp add: extract_if_archive_def isfile_def demo_fs_def demo_env_def endswith_def lower_def
      lower_char_def dirname_def path_join_def makedirs_def open_wb_def append_file_def Let_def)

text \<open>
  Claim C8, amended: for an existing archive none of whose ZIP members is extracted onto the
  archive's own path, when \<^verbatim>\<open>extract_if_archive\<close> reports the removal the archive no
  longer exists, every ZIP member exists at its path below the archive's directory, and a
  gzip stream has been written in full to the path without the last three characters; when
  it reports an error the archive still exists with its content. The function returns in
  every case, so an error never leaves it.
\<close>

theorem extract_if_archive_cleanup:
  assumes "files fs filepath = Some content"
    and "\<forall>members. zip_members ev content = Some members \<longrightarrow>
           filepath \<notin> targets (dirname filepath) members"
  shows "(extract_if_archive ev filepath fs = (Removed, fs') \<longrightarrow>
            files fs' filepath = None
          \<and> (endswith (lower filepath) ''.zip'' \<longrightarrow>
               (\<exists>members. zip_members ev content = Some members
                  \<and> (\<forall>p\<in>targets (dirname filepath) members. files fs' p \<noteq> None)))
          \<and> (\<not> endswith (lower filepath) ''.zip'' \<longrightarrow>
               files fs' (drop_last 3 filepath) = Some (fst (gunzip ev content))))
       \<and> (extract_if_archive ev filepath fs = (ErrorExtracting e, fs') \<longrightarrow>
            files fs' filepath = Some content)"
proof (cases "endswith (lower filepath) ''.zip''")
  case zip: True
  show ?thesis
  proof (cases "zip_members ev content")
    case None
    with zip assms(1) show ?thesis
      by (auto simp: extract_if_archive_def isfile_def)
  next
    case (Some members)
    with assms(2) have self: "filepath \<notin> targets (dirname filepath) members" by blast
    obtain r fs1 where x: "extractall (dirname filepath) members fs = (r, fs1)"
      by (cases "extractall (dirname filepath) members fs")
    have kept: "files fs1 filepath = Some content"
      using extractall_frame [OF x self] assms(1) by simp
    show ?thesis
    proof (cases r)
      case (Some err)
      with zip \<open>zip_members ev content = Some members\<close> x assms(1) kept show ?thesis
        by (auto simp: extract_if_archive_def isfile_def)
    next
      case None
      note all = extractall_all_written [OF x [unfolded None]]
      show ?thesis
      proof (cases "os_remove ev filepath fs1")
        case (Inl err)
        with zip \<open>zip_members ev content = Some members\<close> x None assms(1) kept show ?thesis
          by (auto simp: extract_if_archive_def isfile_def)
      next
        case (Inr fs2)
        then have fs2: "fs2 = fs1\<lparr>files := (files fs1)(filepath := None)\<rparr>"
          by (auto simp: os_remove_def split: if_splits)
        have res: "extract_if_archive ev filepath fs = (Removed, fs2)"
          using zip \<open>zip_members ev content = Some members\<close> x None assms(1) Inr
          by (simp add: extract_if_archive_def isfile_def)
        have "\<forall>p\<in>targets (dirname filepath) members. files fs2 p \<noteq> None"
          using all self by (auto simp: fs2)
        with res zip \<open>zip_members ev content = Some members\<close> show ?thesis
          by (auto simp: fs2)
      qed
    qed
  qed
next
  case nozip: False
  show ?thesis
  proof (cases "endswith (lower filepath) ''.gz''")
    case False
    with nozip assms(1) show ?thesis
      by (simp add: extract_if_archive_def isfile_def)
  next
    case gz: True
    then have len: "3 \<le> length filepath"
      by (auto simp: endswith_def lower_def)
    then have diff: "drop_last 3 filepath \<noteq> filepath"
      by (auto simp: drop_last_def dest!: arg_cong [where f = length])
    obtain data ok where g: "gunzip ev content = (data, ok)"
      by (cases "gunzip ev content")
    show ?thesis
      using nozip gz assms(1) diff g
      by (auto simp: extract_if_archive_def isfile_def open_wb_def append_file_def
          os_remove_def Let_def split: if_splits)
  qed
qed

lemmas demo_eval = extract_if_archive_def isfile_def demo_fs_def demo_env_def endswith_def
  lower_def lower_char_def dirname_def path_join_def makedirs_def open_wb_def append_file_def
  os_remove_def drop_last_def Let_def

theorem extract_if_archive_cleanup_witness:
  "fst (extract_if_archive demo_env ''/d/t.zip'' demo_fs) = Removed
   \<and> files (snd (extract_if_archive demo_env ''/d/t.zip'' demo_fs)) ''/d/t.zip'' = None
   \<and> files (snd (extract_if_archive demo_env ''/d/t.zip'' demo_fs)) ''/d/sub/y.txt'' \<noteq> None
   \<and> fst (extract_if_archive demo_env ''/d/broken.zip'' demo_fs) = ErrorExtracting BadZipFile
   \<and> files (snd (extract_if_archive demo_env ''/d/broken.zip'' demo_fs)) ''/d/broken.zip''
       = Some [80, 75, 0]
   \<and> fst (extract_if_archive demo_env ''/d/notes.csv.gz'' demo_fs) = Removed
   \<and> files (snd (extract_if_archive demo_env ''/d/notes.csv.gz'' demo_fs)) ''/d/notes.csv.gz''
       = None
   \<and> files (snd (extract_if_archive demo_env ''/d/notes.csv.gz'' demo_fs)) ''/d/notes.csv''
       = Some [5, 6]
   \<and> fst (extract_if_archive demo_env ''/d/cut.gz'' demo_fs) = ErrorExtracting BadGzipFile
   \<and> files (snd (extract_if_archive demo_env ''/d/cut.gz'' demo_fs)) ''/d/cut.gz'' = Some [30, 5]"
proof -
  have c: "files demo_fs ''/d/t.zip'' = Some [80, 75]"
    "files demo_fs ''/d/broken.zip'' = Some [80, 75, 0]"
    "files demo_fs ''/d/notes.csv.gz'' = Some [31, 5, 6]"
    "files demo_fs ''/d/cut.gz'' = Some [30, 5]"
    by (simp_all add: demo_fs_def)
  have m: "zip_members demo_env [80, 75] = Some [(''x.txt'', [1, 2], True), (''sub/y.txt'', [3], True)]"
    "zip_members demo_env [80, 75, 0] = Some [(''x.txt'', [1, 2], True), (''bad.bin'', [9], False)]"
    "zip_members demo_env [31, 5, 6] = None" "zip_members demo_env [30, 5] = None"
    "gunzip demo_env [31, 5, 6] = ([5, 6], True)"
    by (simp_all add: demo_env_def)
  have s: "\<forall>members. zip_members demo_env [80, 75] = Some members \<longrightarrow>
              ''/d/t.zip'' \<notin> targets (dirname ''/d/t.zip'') members"
    "\<forall>members. zip_members demo_env [80, 75, 0] = Some members \<longrightarrow>
              ''/d/broken.zip'' \<notin> targets (dirname ''/d/broken.zip'') members"
    "\<forall>members. zip_members demo_env [31, 5, 6] = Some members \<longrightarrow>
              ''/d/notes.csv.gz'' \<notin> targets (dirname ''/d/notes.csv.gz'') members"
    "\<forall>members. zip_members demo_env [30, 5] = Some members \<longrightarrow>
              ''/d/cut.gz'' \<notin> targets (dirname ''/d/cut.gz'') members"
    by (simp_all add: m targets_def dirname_def path_join_def)
  have r: "fst (extract_if_archive demo_env ''/d/t.zip'' demo_fs) = Removed"
    "fst (extract_if_archive demo_env ''/d/broken.zip'' demo_fs) = ErrorExtracting BadZipFile"
    "fst (extract_if_archive demo_env ''/d/notes.csv.gz'' demo_fs) = Removed"
    "fst (extract_if_archive demo_env ''/d/cut.gz'' demo_fs) = ErrorExtracting BadGzipFile"
    by (simp_all add: demo_eval)
  have z: "endswith (lower ''/d/t.zip'') ''.zip''" "\<not> endswith (lower ''/d/notes.csv.gz'') ''.zip''"
    "drop_last 3 ''/d/notes.csv.gz'' = ''/d/notes.csv''"
    "''/d/sub/y.txt'' \<in> targets (dirname ''/d/t.zip'') [(''x.txt'', [1, 2], True), (''sub/y.txt'', [3], True)]"
    by (simp_all add: endswith_def lower_def lower_char_def drop_last_def targets_def dirname_def
        path_join_def)
  note t1 = extract_if_archive_cleanup [OF c(1) s(1),
      where fs' = "snd (extract_if_archive demo_env ''/d/t.zip'' demo_fs)"]
  note t2 = extract_if_archive_cleanup [OF c(2) s(2),
      where e = BadZipFile and fs' = "snd (extract_if_archive demo_env ''/d/broken.zip'' demo_fs)"]
  note t3 = extract_if_archive_cleanup [OF c(3) s(3),
      where fs' = "snd (extract_if_archive demo_env ''/d/notes.csv.gz'' demo_fs)"]
  note t4 = extract_if_archive_cleanup [OF c(4) s(4),
      where e = BadGzipFile and fs' = "snd (extract_if_archive demo_env ''/d/cut.gz'' demo_fs)"]
  have a1: "files (snd (extract_if_archive demo_env ''/d/t.zip'' demo_fs)) ''/d/t.zip'' = None
     \<and> files (snd (extract_if_archive demo_env ''/d/t.zip'' demo_fs)) ''/d/sub/y.txt'' \<noteq> None"
    using t1 r(1) z(1,4) m(1) by (auto simp: prod_eq_iff)
  have a2: "files (snd (extract_if_archive demo_env ''/d/broken.zip'' demo_fs)) ''/d/broken.zip''
       = Some [80, 75, 0]"
    using t2 r(2) by (auto simp: prod_eq_iff)
  have a3: "files (snd (extract_if_archive demo_env ''/d/notes.csv.gz'' demo_fs)) ''/d/notes.csv.gz''
       = None
     \<and> files (snd (extract_if_archive demo_env ''/d/notes.csv.gz'' demo_fs)) ''/d/notes.csv''
       = Some [5, 6]"
    using t3 r(3) z(2,3) m(5) by (auto simp: prod_eq_iff)
  have a4: "files (snd (extract_if_archive demo_env ''/d/cut.gz'' demo_fs)) ''/d/cut.gz'' = Some [30, 5]"
    using t4 r(4) by (auto simp: prod_eq_iff)
  from r a1 a2 a3 a4 show ?thesis by blast
qed

end
